theory Spec2Isabelle
  imports Main
begin

section \<open>Python values and exceptions\<close>

text \<open>
  The values that flow through the dashboard's helpers: decoded JSON bodies, the cells of
  a table and the parameters of an operation. \<open>PyNone\<close> also stands for a missing
  cell (NaN). A float is not represented; none of the functions below computes with one.
\<close>

datatype pyobj =
    PyNone
  | PyBool bool
  | PyInt int
  | PyStr string
  | PyList "pyobj list"
  | PyDict "(string \<times> pyobj) list"

text \<open>
  The exceptions the code raises or lets through. The first four are the subclasses of
  \<open>requests.exceptions.RequestException\<close>, the only class the retry wrapper catches.
\<close>

datatype exn =
    ConnectionError string
  | Timeout string
  | HTTPError nat
  | RequestException string
  | ValueError string
  | KeyError string
  | TypeError string
  | AttributeError string
  | OtherError string

fun is_RequestException :: "exn \<Rightarrow> bool" where
  "is_RequestException (ConnectionError _) = True"
| "is_RequestException (Timeout _) = True"
| "is_RequestException (HTTPError _) = True"
| "is_RequestException (RequestException _) = True"
| "is_RequestException _ = False"

text \<open>A Python dict: keys in insertion order, each key once.\<close>

fun dict_get :: "('k \<times> 'v) list \<Rightarrow> 'k \<Rightarrow> 'v option" where
  "dict_get [] k = None"
| "dict_get ((k', v) # d) k = (if k' = k then Some v else dict_get d k)"


text \<open>\<open>obj[key]\<close> and \<open>obj.get(key, default)\<close> on a value that may not be a dict.\<close>

fun py_getitem :: "pyobj \<Rightarrow> string \<Rightarrow> exn + pyobj" where
  "py_getitem (PyDict d) k = (case dict_get d k of None \<Rightarrow> Inl (KeyError k) | Some v \<Rightarrow> Inr v)"
| "py_getitem _ k = Inl (TypeError ''indices must be integers or object is not subscriptable'')"

fun py_get :: "pyobj \<Rightarrow> string \<Rightarrow> pyobj \<Rightarrow> exn + pyobj" where
  "py_get (PyDict d) k dflt = (case dict_get d k of None \<Rightarrow> Inr dflt | Some v \<Rightarrow> Inr v)"
| "py_get _ k dflt = Inl (AttributeError ''get'')"

text \<open>\<open>x == 'literal'\<close>: only a str compares equal to a str.\<close>

fun py_eq_str :: "pyobj \<Rightarrow> string \<Rightarrow> bool" where
  "py_eq_str (PyStr s) t = (s = t)"
| "py_eq_str _ t = False"

section \<open>The API client (utils/api\_clients.py)\<close>

subsection \<open>The world the client acts on\<close>

record request =
  rq_method :: string
  rq_url :: string
  rq_params :: "(string \<times> string) list option"
  rq_json :: "pyobj option"

text \<open>
  A response as the code reads it: the status that \<open>raise_for_status\<close> inspects and
  the outcome of \<open>response.json()\<close>.
\<close>

record response =
  status_code :: nat
  json_body :: "exn + pyobj"

record client =
  base_url :: string
  api_key :: "string option"

type_synonym cache_key = "client \<times> string \<times> (string \<times> string) list option"

text \<open>
  \<open>now\<close> is the clock in seconds, \<open>slept\<close> the arguments of \<open>time.sleep\<close> so far,
  \<open>sent\<close> the requests handed to the session so far (both oldest first), and
  \<open>cache\<close> the store behind \<open>cached_get\<close>: key to value and expiry time.
\<close>

record world =
  now :: int
  slept :: "int list"
  sent :: "request list"
  cache :: "(cache_key \<times> (pyobj \<times> int)) list"

text \<open>
  The network is a parameter: the outcome of the \<open>n\<close>-th request of the session
  (counting from 0), given the request.
\<close>

type_synonym network = "nat \<Rightarrow> request \<Rightarrow> exn + response"

type_synonym 'a action = "world \<Rightarrow> (exn + 'a) \<times> world"

text \<open>\<open>time.sleep(d)\<close> raises \<open>ValueError\<close> on a negative duration.\<close>

definition time_sleep :: "int \<Rightarrow> unit action" where
  "time_sleep d w =
     (if d < 0 then (Inl (ValueError ''sleep length must be non-negative''), w)
      else (Inr (), w\<lparr>now := now w + d, slept := slept w @ [d]\<rparr>))"

definition session_send :: "network \<Rightarrow> request \<Rightarrow> response action" where
  "session_send net rq w = (net (length (sent w)) rq, w\<lparr>sent := sent w @ [rq]\<rparr>)"

definition raise_for_status :: "response \<Rightarrow> exn + unit" where
  "raise_for_status r =
     (if 400 \<le> status_code r \<and> status_code r < 600 then Inl (HTTPError (status_code r))
      else Inr ())"

subsection \<open>retry\_on\_failure\<close>

text \<open>
  The loop \<open>for attempt in range(max_retries)\<close> runs over the list of attempts.
  \<open>raise last_error\<close> with \<open>last_error = None\<close> (no attempt was made) is a
  \<open>TypeError\<close>.
\<close>

fun wrapper :: "int \<Rightarrow> int \<Rightarrow> 'a action \<Rightarrow> nat list \<Rightarrow> exn option \<Rightarrow> 'a action" where
  "wrapper max_retries delay func [] last_error w =
     (case last_error of
        None \<Rightarrow> (Inl (TypeError ''exceptions must derive from BaseException''), w)
      | Some e \<Rightarrow> (Inl e, w))"
| "wrapper max_retries delay func (attempt # rest) last_error w =
     (case func w of
        (Inr v, w') \<Rightarrow> (Inr v, w')
      | (Inl e, w') \<Rightarrow>
          if is_RequestException e then
            (if int attempt < max_retries - 1 then
               (case time_sleep (delay * (int attempt + 1)) w' of
                  (Inl e', w'') \<Rightarrow> (Inl e', w'')
                | (Inr _, w'') \<Rightarrow> wrapper max_retries delay func rest (Some e) w'')
             else wrapper max_retries delay func rest (Some e) w')
          else (Inl e, w'))"

definition retry_on_failure :: "int \<Rightarrow> int \<Rightarrow> 'a action \<Rightarrow> 'a action" where
  "retry_on_failure max_retries delay func =
     wrapper max_retries delay func [0 ..< nat max_retries] None"

subsection \<open>APIClient\<close>

definition lstrip :: "char \<Rightarrow> string \<Rightarrow> string" where
  "lstrip c s = dropWhile (\<lambda>x. x = c) s"

definition rstrip :: "char \<Rightarrow> string \<Rightarrow> string" where
  "rstrip c s = rev (dropWhile (\<lambda>x. x = c) (rev s))"

text \<open>
  \<open>__init__\<close>: the key falls back to the environment variable \<open>API_KEY\<close>; an
  empty key counts as absent (\<open>api_key or os.getenv(...)\<close>). The warning shown when no
  key is found is an effect on the page only.
\<close>

definition truthy_str :: "string option \<Rightarrow> bool" where
  "truthy_str k = (case k of None \<Rightarrow> False | Some s \<Rightarrow> s \<noteq> [])"

definition APIClient :: "string \<Rightarrow> string option \<Rightarrow> string option \<Rightarrow> client" where
  "APIClient url key env_key =
     \<lparr>base_url = rstrip CHR ''/'' url,
      api_key = (if truthy_str key then key else env_key)\<rparr>"

definition endpoint_url :: "client \<Rightarrow> string \<Rightarrow> string" where
  "endpoint_url c endpoint = base_url c @ ''/'' @ lstrip CHR ''/'' endpoint"

text \<open>The undecorated bodies of \<open>get\<close> and \<open>post\<close>.\<close>

definition get_request :: "client \<Rightarrow> string \<Rightarrow> (string \<times> string) list option \<Rightarrow> request" where
  "get_request c endpoint params =
     \<lparr>rq_method = ''GET'', rq_url = endpoint_url c endpoint,
      rq_params = params, rq_json = None\<rparr>"

definition post_request :: "client \<Rightarrow> string \<Rightarrow> pyobj \<Rightarrow> request" where
  "post_request c endpoint data =
     \<lparr>rq_method = ''POST'', rq_url = endpoint_url c endpoint,
      rq_params = None, rq_json = Some data\<rparr>"

definition get_body ::
  "network \<Rightarrow> client \<Rightarrow> string \<Rightarrow> (string \<times> string) list option \<Rightarrow> pyobj action" where
  "get_body net c endpoint params w =
     (case session_send net (get_request c endpoint params) w of
        (Inl e, w') \<Rightarrow> (Inl e, w')
      | (Inr r, w') \<Rightarrow>
          (case raise_for_status r of
             Inl e \<Rightarrow> (Inl e, w')
           | Inr _ \<Rightarrow> (json_body r, w')))"

definition post_body :: "network \<Rightarrow> client \<Rightarrow> string \<Rightarrow> pyobj \<Rightarrow> pyobj action" where
  "post_body net c endpoint data w =
     (case session_send net (post_request c endpoint data) w of
        (Inl e, w') \<Rightarrow> (Inl e, w')
      | (Inr r, w') \<Rightarrow>
          (case raise_for_status r of
             Inl e \<Rightarrow> (Inl e, w')
           | Inr _ \<Rightarrow> (json_body r, w')))"

text \<open>\<open>@retry_on_failure()\<close>: the defaults, three attempts and a delay of one.\<close>

definition get ::
  "network \<Rightarrow> client \<Rightarrow> string \<Rightarrow> (string \<times> string) list option \<Rightarrow> pyobj action" where
  "get net c endpoint params = retry_on_failure 3 1 (get_body net c endpoint params)"

definition post :: "network \<Rightarrow> client \<Rightarrow> string \<Rightarrow> pyobj \<Rightarrow> pyobj action" where
  "post net c endpoint data = retry_on_failure 3 1 (post_body net c endpoint data)"



text \<open>
  \<open>health_check\<close>: the bare \<open>except:\<close> turns every exception of the body into
  \<open>False\<close>, also the \<open>AttributeError\<close> of \<open>response.get\<close> on a body that is not
  a dict.
\<close>

definition health_check :: "network \<Rightarrow> client \<Rightarrow> bool action" where
  "health_check net c w =
     (case get net c ''health'' None w of
        (Inl e, w') \<Rightarrow> (Inr False, w')
      | (Inr resp, w') \<Rightarrow>
          (case py_get resp ''status'' PyNone of
             Inl e \<Rightarrow> (Inr False, w')
           | Inr s \<Rightarrow> (Inr (py_eq_str s ''healthy''), w')))"

subsection \<open>Values used in the examples\<close>

definition world0 :: world where
  "world0 = \<lparr>now = 0, slept = [], sent = [], cache = []\<rparr>"

definition client0 :: client where
  "client0 = \<lparr>base_url = ''http://api'', api_key = Some ''k''\<rparr>"

definition healthy_body :: pyobj where
  "healthy_body = PyDict [(''status'', PyStr ''healthy'')]"

text \<open>A network that refuses the first two connections and answers from the third on.\<close>

definition net_third :: network where
  "net_third n rq =
     (if n < 2 then Inl (ConnectionError ''refused'')
      else Inr \<lparr>status_code = 200, json_body = Inr healthy_body\<rparr>)"

text \<open>An unreachable host.\<close>

definition net_down :: network where
  "net_down n rq = Inl (ConnectionError ''unreachable'')"



section \<open>Tables (utils/data\_helpers.py)\<close>

subsection \<open>The data frame\<close>

text \<open>
  A data frame: its columns (label and dtype) in order and its rows, each with its index
  label and one cell per column. Column labels are strings and, by the spec's invariant
  on tables, unique; every row has one cell per column.
\<close>

datatype dtype =
    Int64 | Float64 | Object | Category
  | Bool | Int32 | Float32 | Datetime64 | Timedelta64

record table =
  columns :: "(string \<times> dtype) list"
  rows :: "(nat \<times> pyobj list) list"

definition wf_table :: "table \<Rightarrow> bool" where
  "wf_table T \<longleftrightarrow>
     distinct (map fst (columns T))
     \<and> list_all (\<lambda>r. length (snd r) = length (columns T)) (rows T)"

text \<open>What is handed to \<open>load_data\<close>: an object with a \<open>name\<close> attribute (an uploaded
  file: name and content), a path string, or anything else (given by its type's name).\<close>

datatype file_input =
    UploadedFile string string
  | PathStr string
  | OtherInput string

text \<open>
  The pandas operations whose results the helpers only pass on are parameters: the two
  file parsers, the comparison of a column with a value that is not a scalar,
  \<open>groupby\<close> and \<open>agg\<close>, \<open>sort_values\<close>, \<open>describe().to_dict()\<close> and
  \<open>value_counts().to_dict()\<close>. None of them changes the frame it is given.
\<close>

record ('s, 'g) pandas =
  read_csv :: "file_input \<Rightarrow> exn + table"
  read_excel :: "file_input \<Rightarrow> exn + table"
  eq_other :: "pyobj list \<Rightarrow> pyobj \<Rightarrow> exn + bool list"
  groupby :: "table \<Rightarrow> pyobj \<Rightarrow> exn + 'g"
  agg :: "'g \<Rightarrow> pyobj \<Rightarrow> exn + table"
  sort_values :: "table \<Rightarrow> pyobj \<Rightarrow> pyobj \<Rightarrow> exn + table"
  describe :: "table \<Rightarrow> (string \<times> 's) list"
  value_counts :: "pyobj list \<Rightarrow> (pyobj \<times> nat) list"

subsection \<open>load\_data\<close>




subsection \<open>process\_data\<close>

text \<open>
  Data frames are objects: a variable holds a reference, and the heap maps references to
  frames. A new frame is allocated at the next free reference.
\<close>

type_synonym ref = nat
type_synonym heap = "table list"

definition alloc :: "table \<Rightarrow> heap \<Rightarrow> ref \<times> heap" where
  "alloc T h = (length h, h @ [T])"

fun col_index :: "(string \<times> dtype) list \<Rightarrow> string \<Rightarrow> nat option" where
  "col_index [] col = None"
| "col_index ((n, d) # cs) col =
     (if n = col then Some 0 else map_option Suc (col_index cs col))"

text \<open>\<open>df[col]\<close>: the cells of the column, or \<open>KeyError\<close>.\<close>

definition getitem_col :: "table \<Rightarrow> string \<Rightarrow> exn + pyobj list" where
  "getitem_col T col =
     (case col_index (columns T) col of
        None \<Rightarrow> Inl (KeyError col)
      | Some j \<Rightarrow> Inr (map (\<lambda>r. snd r ! j) (rows T)))"

text \<open>
  \<open>series == value\<close> for a scalar value, cell by cell: a missing cell equals nothing,
  booleans and integers compare as numbers, strings as strings, and values of different
  kinds are unequal.
\<close>

fun is_scalar :: "pyobj \<Rightarrow> bool" where
  "is_scalar (PyList _) = False"
| "is_scalar (PyDict _) = False"
| "is_scalar _ = True"

fun num_of :: "pyobj \<Rightarrow> int option" where
  "num_of (PyBool b) = Some (if b then 1 else 0)"
| "num_of (PyInt i) = Some i"
| "num_of _ = None"

fun elem_eq :: "pyobj \<Rightarrow> pyobj \<Rightarrow> bool" where
  "elem_eq (PyStr s) (PyStr t) = (s = t)"
| "elem_eq x v =
     (case (num_of x, num_of v) of
        (Some a, Some b) \<Rightarrow> a = b
      | _ \<Rightarrow> False)"

definition series_eq :: "('s, 'g) pandas \<Rightarrow> pyobj list \<Rightarrow> pyobj \<Rightarrow> exn + bool list" where
  "series_eq pd xs v =
     (if is_scalar v then Inr (map (\<lambda>x. elem_eq x v) xs) else eq_other pd xs v)"

text \<open>\<open>df[mask]\<close>: the rows whose mask entry is true, columns and index labels kept.\<close>

definition getitem_mask :: "table \<Rightarrow> bool list \<Rightarrow> exn + table" where
  "getitem_mask T msk =
     (if length msk \<noteq> length (rows T) then Inl (ValueError ''Item wrong length'')
      else Inr (T\<lparr>rows := map snd (filter fst (zip msk (rows T)))\<rparr>))"

definition py_items :: "pyobj \<Rightarrow> exn + (string \<times> pyobj) list" where
  "py_items x = (case x of PyDict d \<Rightarrow> Inr d | _ \<Rightarrow> Inl (AttributeError ''items''))"

text \<open>The inner loop \<open>for col, value in params.items()\<close>; \<open>p\<close> is \<open>processed_df\<close>.\<close>

fun filter_items ::
  "('s, 'g) pandas \<Rightarrow> (string \<times> pyobj) list \<Rightarrow> ref \<Rightarrow> heap \<Rightarrow> (exn + ref) \<times> heap" where
  "filter_items pd [] p h = (Inr p, h)"
| "filter_items pd ((col, v) # items) p h =
     (case getitem_col (h ! p) col of
        Inl e \<Rightarrow> (Inl e, h)
      | Inr series \<Rightarrow>
          (case series_eq pd series v of
             Inl e \<Rightarrow> (Inl e, h)
           | Inr msk \<Rightarrow>
               (case getitem_mask (h ! p) msk of
                  Inl e \<Rightarrow> (Inl e, h)
                | Inr T' \<Rightarrow> (case alloc T' h of (p', h') \<Rightarrow> filter_items pd items p' h'))))"

text \<open>The loop \<open>for op, params in operations.items()\<close>.\<close>

fun process_ops ::
  "('s, 'g) pandas \<Rightarrow> (string \<times> pyobj) list \<Rightarrow> ref \<Rightarrow> heap \<Rightarrow> (exn + ref) \<times> heap" where
  "process_ops pd [] p h = (Inr p, h)"
| "process_ops pd ((op, params) # ops) p h =
     (if op = ''filter'' then
        (case py_items params of
           Inl e \<Rightarrow> (Inl e, h)
         | Inr items \<Rightarrow>
             (case filter_items pd items p h of
                (Inl e, h') \<Rightarrow> (Inl e, h')
              | (Inr p', h') \<Rightarrow> process_ops pd ops p' h'))
      else if op = ''group'' then
        (case py_getitem params ''by'' of
           Inl e \<Rightarrow> (Inl e, h)
         | Inr by_cols \<Rightarrow>
             (case groupby pd (h ! p) by_cols of
                Inl e \<Rightarrow> (Inl e, h)
              | Inr g \<Rightarrow>
                  (case py_getitem params ''agg'' of
                     Inl e \<Rightarrow> (Inl e, h)
                   | Inr a \<Rightarrow>
                       (case agg pd g a of
                          Inl e \<Rightarrow> (Inl e, h)
                        | Inr T' \<Rightarrow>
                            (case alloc T' h of (p', h') \<Rightarrow> process_ops pd ops p' h')))))
      else if op = ''sort'' then
        (case py_getitem params ''by'' of
           Inl e \<Rightarrow> (Inl e, h)
         | Inr by_cols \<Rightarrow>
             (case py_get params ''ascending'' (PyBool True) of
                Inl e \<Rightarrow> (Inl e, h)
              | Inr ascending \<Rightarrow>
                  (case sort_values pd (h ! p) by_cols ascending of
                     Inl e \<Rightarrow> (Inl e, h)
                   | Inr T' \<Rightarrow>
                       (case alloc T' h of (p', h') \<Rightarrow> process_ops pd ops p' h'))))
      else process_ops pd ops p h)"

text \<open>
  \<open>process_data(df, operations)\<close>: \<open>df\<close> is the reference the caller passes,
  \<open>operations\<close> the dict in insertion order; \<open>df.copy()\<close> allocates the first frame.
\<close>

definition process_data ::
  "('s, 'g) pandas \<Rightarrow> ref \<Rightarrow> (string \<times> pyobj) list \<Rightarrow> heap \<Rightarrow> (exn + ref) \<times> heap" where
  "process_data pd df operations h =
     (case alloc (h ! df) h of (processed_df, h') \<Rightarrow> process_ops pd operations processed_df h')"

subsection \<open>generate\_summary\_stats\<close>












subsection \<open>Tables and a library used in the examples\<close>

definition csv_ab :: string where
  "csv_ab = ''a,b'' @ [CHR 0x0A] @ ''1,2'' @ [CHR 0x0A] @ ''3,4''"

definition table_ab :: table where
  "table_ab =
     \<lparr>columns = [(''a'', Int64), (''b'', Int64)],
      rows = [(0, [PyInt 1, PyInt 2]), (1, [PyInt 3, PyInt 4])]\<rparr>"

definition table_flag :: table where
  "table_flag =
     \<lparr>columns = [(''id'', Int64), (''flag'', Bool), (''city'', Object)],
      rows = [(0, [PyInt 1, PyBool True, PyStr ''Oslo'']),
              (1, [PyInt 2, PyBool False, PyStr ''Rome'']),
              (2, [PyInt 3, PyBool True, PyStr ''Oslo''])]\<rparr>"


text \<open>
  A stand-in for the library, for the examples only: its CSV parser knows the one file
  \<open>csv_ab\<close>, grouping and sorting hand the frame back, and a value is counted by its
  occurrences.
\<close>

definition pandas0 :: "(nat, table) pandas" where
  "pandas0 =
     \<lparr>read_csv = (\<lambda>f. case f of
                    UploadedFile n content \<Rightarrow>
                      if content = csv_ab then Inr table_ab
                      else Inl (OtherError ''not the example file'')
                  | _ \<Rightarrow> Inl (OtherError ''no file system'')),
      read_excel = (\<lambda>f. Inl (OtherError ''no spreadsheet reader'')),
      eq_other = (\<lambda>xs v. Inl (ValueError ''Lengths must match to compare'')),
      groupby = (\<lambda>T by_cols. Inr T),
      agg = (\<lambda>g a. Inr g),
      sort_values = (\<lambda>T by_cols ascending. Inr T),
      describe = (\<lambda>T. map (\<lambda>c. (fst c, length (rows T))) (columns T)),
      value_counts = (\<lambda>xs. map (\<lambda>x. (x, count_list xs x)) (remdups xs))\<rparr>"


subsection \<open>Notions used to state the properties of process\_data\<close>

text \<open>
  \<open>row_matches T col v r\<close> is \<open>row[col] == v\<close> for a row \<open>r\<close> of \<open>T\<close>, with the
  comparison \<open>elem_eq\<close> of the filter. \<open>result_table\<close> is the frame a call returned,
  \<open>then_process\<close> a second call on the frame the first call returned, and
  \<open>extends h h'\<close> says that the heap \<open>h'\<close> is \<open>h\<close> with frames added.
\<close>

definition row_matches :: "table \<Rightarrow> string \<Rightarrow> pyobj \<Rightarrow> nat \<times> pyobj list \<Rightarrow> bool" where
  "row_matches T col v r =
     (case col_index (columns T) col of None \<Rightarrow> False | Some j \<Rightarrow> elem_eq (snd r ! j) v)"

definition result_table :: "(exn + ref) \<times> heap \<Rightarrow> table option" where
  "result_table r = (case r of (Inl e, h) \<Rightarrow> None | (Inr p, h) \<Rightarrow> Some (h ! p))"

definition then_process ::
  "('s, 'g) pandas \<Rightarrow> (string \<times> pyobj) list \<Rightarrow> (exn + ref) \<times> heap \<Rightarrow> (exn + ref) \<times> heap" where
  "then_process pd operations r =
     (case r of (Inl e, h) \<Rightarrow> (Inl e, h) | (Inr p, h) \<Rightarrow> process_data pd p operations h)"

definition recognised :: "string \<Rightarrow> bool" where
  "recognised op \<longleftrightarrow> op = ''filter'' \<or> op = ''group'' \<or> op = ''sort''"

definition all_match :: "table \<Rightarrow> (string \<times> pyobj) list \<Rightarrow> nat \<times> pyobj list \<Rightarrow> bool" where
  "all_match T items r = list_all (\<lambda>c. row_matches T (fst c) (snd c) r) items"

definition filterable :: "table \<Rightarrow> (string \<times> pyobj) list \<Rightarrow> bool" where
  "filterable T items =
     list_all (\<lambda>c. col_index (columns T) (fst c) \<noteq> None \<and> is_scalar (snd c)) items"

definition extends :: "heap \<Rightarrow> heap \<Rightarrow> bool" where
  "extends h h' \<longleftrightarrow> (\<exists>ext. h' = h @ ext)"

section \<open>Retry\<close>

text \<open>What one request contributes to the body of \<open>get\<close> and \<open>post\<close>.\<close>

definition response_result :: "exn + response \<Rightarrow> exn + pyobj" where
  "response_result x =
     (case x of
        Inl e \<Rightarrow> Inl e
      | Inr r \<Rightarrow> (case raise_for_status r of Inl e \<Rightarrow> Inl e | Inr _ \<Rightarrow> json_body r))"

lemma get_body_eq:
  "get_body net c endpoint params w =
     (response_result (net (length (sent w)) (get_request c endpoint params)),
      w\<lparr>sent := sent w @ [get_request c endpoint params]\<rparr>)"
  by (simp add: get_body_def session_send_def response_result_def split: sum.splits)

lemma post_body_eq:
  "post_body net c endpoint data w =
     (response_result (net (length (sent w)) (post_request c endpoint data)),
      w\<lparr>sent := sent w @ [post_request c endpoint data]\<rparr>)"
  by (simp add: post_body_def session_send_def response_result_def split: sum.splits)

lemma time_sleep_ok:
  "0 \<le> d \<Longrightarrow> time_sleep d w = (Inr (), w\<lparr>now := now w + d, slept := slept w @ [d]\<rparr>)"
  by (simp add: time_sleep_def)

lemma upt_nat_3: "[0 ..< nat 3] = [0, 1, 2]"
  by (simp add: upt_rec)

lemma retry3_fail_fail:
  assumes d: "0 \<le> delay"
    and sh: "\<And>w. body w =
               (response_result (net (length (sent w)) rq), w\<lparr>sent := sent w @ [rq]\<rparr>)"
    and f1: "net (length (sent w)) rq = Inl e1" "is_RequestException e1"
    and f2: "net (length (sent w) + 1) rq = Inl e2" "is_RequestException e2"
    and f3: "response_result (net (length (sent w) + 2) rq) = out"
       "case out of Inl e \<Rightarrow> is_RequestException e | Inr _ \<Rightarrow> True"
  shows "retry_on_failure 3 delay body w =
     (out, w\<lparr>now := now w + delay * 1 + delay * 2,
            slept := slept w @ [delay * 1, delay * 2],
            sent := sent w @ [rq, rq, rq]\<rparr>)"
proof -
  let ?w1 = "w\<lparr>sent := sent w @ [rq]\<rparr>"
  let ?w1s = "?w1\<lparr>now := now ?w1 + delay * (int 0 + 1),
                   slept := slept ?w1 @ [delay * (int 0 + 1)]\<rparr>"
  let ?w2 = "?w1s\<lparr>sent := sent ?w1s @ [rq]\<rparr>"
  let ?w2s = "?w2\<lparr>now := now ?w2 + delay * (int 1 + 1),
                   slept := slept ?w2 @ [delay * (int 1 + 1)]\<rparr>"
  let ?w3 = "?w2s\<lparr>sent := sent ?w2s @ [rq]\<rparr>"
  have b1: "body w = (Inl e1, ?w1)"
    using f1 by (simp add: sh response_result_def)
  have b2: "body ?w1s = (Inl e2, ?w2)"
    using f2 by (simp add: sh response_result_def)
  have b3: "body ?w2s = (out, ?w3)"
    using f3 by (simp add: sh)
  have s1: "wrapper 3 delay body [0, 1, 2] None w = wrapper 3 delay body [1, 2] (Some e1) ?w1s"
    using d b1 f1(2) by (simp add: time_sleep_ok)
  have s2: "wrapper 3 delay body [1, 2] (Some e1) ?w1s = wrapper 3 delay body [2] (Some e2) ?w2s"
    using d b2 f2(2) by (simp add: time_sleep_ok)
  have s3: "wrapper 3 delay body [2] (Some e2) ?w2s = (out, ?w3)"
  proof (cases out)
    case (Inl e3)
    then have "is_RequestException e3" using f3(2) by simp
    with b3 Inl show ?thesis by simp
  next
    case (Inr v)
    with b3 show ?thesis by simp
  qed
  have "?w3 = w\<lparr>now := now w + delay * 1 + delay * 2,
                 slept := slept w @ [delay * 1, delay * 2],
                 sent := sent w @ [rq, rq, rq]\<rparr>"
    by simp
  with s1 s2 s3 show ?thesis
    by (simp only: retry_on_failure_def upt_nat_3)
qed

text \<open>
  C1. A call to \<open>get\<close> or \<open>post\<close> (three attempts) whose first two requests fail with
  a request exception: the wrapper sleeps exactly twice, for \<open>delay * 1\<close> and then
  \<open>delay * 2\<close>, and sends exactly three requests. If the third request succeeds, the
  call returns its decoded body; if it fails with a request exception too, that last
  exception is raised. For \<open>get\<close> and \<open>post\<close> themselves the delay is 1.
\<close>

theorem get_post_retry_linear_backoff:
  assumes which:
      "(body = get_body net c endpoint params \<and> call = get net c endpoint params
          \<and> rq = get_request c endpoint params)
       \<or> (body = post_body net c endpoint data \<and> call = post net c endpoint data
          \<and> rq = post_request c endpoint data)"
    and first: "net (length (sent w)) rq = Inl e1" "is_RequestException e1"
    and second: "net (length (sent w) + 1) rq = Inl e2" "is_RequestException e2"
    and third:
      "(\<exists>r v. net (length (sent w) + 2) rq = Inr r \<and> raise_for_status r = Inr ()
            \<and> json_body r = Inr v \<and> out = Inr v)
       \<or> (\<exists>e3. net (length (sent w) + 2) rq = Inl e3 \<and> is_RequestException e3
            \<and> out = Inl e3)"
    and delay: "0 \<le> delay"
  shows "retry_on_failure 3 delay body w =
           (out, w\<lparr>now := now w + delay * 1 + delay * 2,
                  slept := slept w @ [delay * 1, delay * 2],
                  sent := sent w @ [rq, rq, rq]\<rparr>)
         \<and> call w =
           (out, w\<lparr>now := now w + 1 * 1 + 1 * 2,
                  slept := slept w @ [1 * 1, 1 * 2],
                  sent := sent w @ [rq, rq, rq]\<rparr>)"
proof -
  have sh: "\<And>w. body w =
              (response_result (net (length (sent w)) rq), w\<lparr>sent := sent w @ [rq]\<rparr>)"
    using which by (auto simp: get_body_eq post_body_eq)
  have call: "call = retry_on_failure 3 1 body"
    using which by (auto simp: get_def post_def)
  have f3: "response_result (net (length (sent w) + 2) rq) = out"
    using third by (auto simp: response_result_def)
  have f3': "case out of Inl e \<Rightarrow> is_RequestException e | Inr _ \<Rightarrow> True"
    using third by auto
  have one: "(0::int) \<le> 1" by simp
  have generic: "retry_on_failure 3 delay body w =
           (out, w\<lparr>now := now w + delay * 1 + delay * 2,
                  slept := slept w @ [delay * 1, delay * 2],
                  sent := sent w @ [rq, rq, rq]\<rparr>)"
    by (rule retry3_fail_fail [of delay body net rq w e1 e2 out])
       (rule delay sh first second f3 f3')+
  have default: "retry_on_failure 3 1 body w =
           (out, w\<lparr>now := now w + 1 * 1 + 1 * 2,
                  slept := slept w @ [1 * 1, 1 * 2],
                  sent := sent w @ [rq, rq, rq]\<rparr>)"
    by (rule retry3_fail_fail [of 1 body net rq w e1 e2 out])
       (rule one sh first second f3 f3')+
  show ?thesis
    using generic default by (simp only: call simp_thms)
qed

theorem get_post_retry_linear_backoff_witness:
  "get net_third client0 ''health'' None world0 =
     (Inr healthy_body,
      \<lparr>now = 3, slept = [1, 2],
       sent = [get_request client0 ''health'' None, get_request client0 ''health'' None,
               get_request client0 ''health'' None],
       cache = []\<rparr>)"
  using get_post_retry_linear_backoff
    [of "get_body net_third client0 ''health'' None" net_third client0 "''health''" None
        "get net_third client0 ''health'' None" "get_request client0 ''health'' None"
        PyNone world0 "ConnectionError ''refused''" "ConnectionError ''refused''"
        "Inr healthy_body" 1]
  by (simp add: net_third_def world0_def raise_for_status_def)

section \<open>Health check\<close>

lemma status_healthy_iff:
  "(\<exists>s. py_get resp ''status'' PyNone = Inr s \<and> py_eq_str s ''healthy'')
     \<longleftrightarrow> (\<exists>d. resp = PyDict d \<and> dict_get d ''status'' = Some (PyStr ''healthy''))"
proof (cases resp)
  case (PyDict d)
  show ?thesis
  proof (cases "dict_get d ''status''")
    case None
    with PyDict show ?thesis by simp
  next
    case (Some s)
    with PyDict show ?thesis by (cases s) auto
  qed
qed simp_all

lemma health_check_cases:
  "fst (health_check net c w) =
     Inr (\<exists>resp s. fst (get net c ''health'' None w) = Inr resp
            \<and> py_get resp ''status'' PyNone = Inr s \<and> py_eq_str s ''healthy'')"
  by (auto simp: health_check_def split: prod.splits sum.splits)

lemma wrapper_all_fail:
  assumes "\<And>w. \<exists>e. fst (func w) = Inl e"
  shows "\<exists>e. fst (wrapper m delay func attempts le w) = Inl e"
proof (induction attempts arbitrary: le w)
  case Nil
  show ?case by (cases le) simp_all
next
  case (Cons a rest)
  obtain e w' where f: "func w = (Inl e, w')"
    using assms [of w] by (cases "func w") auto
  show ?case
    using Cons.IH f by (auto simp: time_sleep_def)
qed

lemma get_all_fail:
  assumes "\<And>n rq. \<exists>e. net n rq = Inl e"
  shows "\<exists>e. fst (get net c endpoint params w) = Inl e"
  unfolding get_def retry_on_failure_def
proof (rule wrapper_all_fail)
  fix w :: world
  obtain e where "net (length (sent w)) (get_request c endpoint params) = Inl e"
    using assms by blast
  then show "\<exists>e. fst (get_body net c endpoint params w) = Inl e"
    by (simp add: get_body_eq response_result_def)
qed

text \<open>
  C4. \<open>health_check\<close> never raises: its result is always a boolean. The boolean is
  \<open>True\<close> exactly when \<open>get('health')\<close> returns a dict whose \<open>status\<close> entry is
  the string \<open>healthy\<close>; it is \<open>False\<close> whenever \<open>get\<close> raises, in particular
  when every request fails (an unreachable host).
\<close>

theorem health_check_never_raises:
  "(\<exists>b. fst (health_check net c w) = Inr b)
   \<and> (fst (health_check net c w) = Inr True \<longleftrightarrow>
        (\<exists>d. fst (get net c ''health'' None w) = Inr (PyDict d)
           \<and> dict_get d ''status'' = Some (PyStr ''healthy'')))
   \<and> ((\<exists>e. fst (get net c ''health'' None w) = Inl e) \<longrightarrow>
        fst (health_check net c w) = Inr False)
   \<and> ((\<forall>n rq. \<exists>e. net n rq = Inl e) \<longrightarrow> fst (health_check net c w) = Inr False)"
proof (intro conjI impI)
  show "\<exists>b. fst (health_check net c w) = Inr b"
    by (simp add: health_check_cases)
  show "fst (health_check net c w) = Inr True \<longleftrightarrow>
        (\<exists>d. fst (get net c ''health'' None w) = Inr (PyDict d)
           \<and> dict_get d ''status'' = Some (PyStr ''healthy''))"
    using status_healthy_iff by (auto simp: health_check_cases)
  show "fst (health_check net c w) = Inr False"
    if "\<exists>e. fst (get net c ''health'' None w) = Inl e"
    using that by (auto simp: health_check_cases)
  show "fst (health_check net c w) = Inr False"
    if "\<forall>n rq. \<exists>e. net n rq = Inl e"
    using get_all_fail [of net c "''health''" None w] that by (auto simp: health_check_cases)
qed

theorem health_check_never_raises_witness:
  "(\<forall>n rq. \<exists>e. net_down n rq = Inl e)
   \<and> fst (health_check net_down client0 world0) = Inr False"
  using health_check_never_raises [of net_down client0 world0]
  by (simp add: net_down_def)

section \<open>Cached get\<close>


lemma time_sleep_frame:
  "cache (snd (time_sleep d w)) = cache w"
  "length (sent w) \<le> length (sent (snd (time_sleep d w)))"
  by (simp_all add: time_sleep_def)

lemma wrapper_cache:
  assumes "\<And>w. cache (snd (func w)) = cache w"
  shows "cache (snd (wrapper m delay func attempts le w)) = cache w"
proof (induction attempts arbitrary: le w)
  case Nil
  show ?case by (cases le) simp_all
next
  case (Cons a rest)
  obtain r w' where f: "func w = (r, w')" by (cases "func w")
  with assms [of w] have c: "cache w' = cache w" by simp
  show ?case
    using Cons.IH f c by (cases r) (auto simp: time_sleep_def)
qed



lemma get_cache: "cache (snd (get net c endpoint params w)) = cache w"
  unfolding get_def retry_on_failure_def
  by (rule wrapper_cache) (simp add: get_body_eq)











section \<open>Summary statistics and loading\<close>



















section \<open>The transform engine\<close>

lemma mask_filter: "map snd (filter fst (zip (map P xs) xs)) = filter P xs"
  by (induction xs) auto

lemma row_matches_eq:
  "col_index (columns T) col = Some j \<Longrightarrow> row_matches T col v = (\<lambda>r. elem_eq (snd r ! j) v)"
  by (simp add: row_matches_def fun_eq_iff)

lemma all_match_Cons:
  "all_match T ((col, v) # items) = (\<lambda>r. row_matches T col v r \<and> all_match T items r)"
  by (simp add: all_match_def fun_eq_iff)

lemma all_match_Nil: "all_match T [] = (\<lambda>r. True)"
  by (simp add: all_match_def fun_eq_iff)

lemma filter_step:
  assumes "col_index (columns T) col = Some j" "is_scalar v"
  shows "getitem_col T col = Inr (map (\<lambda>r. snd r ! j) (rows T))"
    and "series_eq pd (map (\<lambda>r. snd r ! j) (rows T)) v
           = Inr (map (row_matches T col v) (rows T))"
    and "getitem_mask T (map (row_matches T col v) (rows T))
           = Inr (T\<lparr>rows := filter (row_matches T col v) (rows T)\<rparr>)"
  using assms
  by (simp_all add: getitem_col_def series_eq_def getitem_mask_def row_matches_eq
      mask_filter comp_def)

lemma row_matches_rows [simp]: "row_matches (T\<lparr>rows := rs\<rparr>) = row_matches T"
  by (simp add: row_matches_def fun_eq_iff)

lemma all_match_rows [simp]: "all_match (T\<lparr>rows := rs\<rparr>) = all_match T"
  by (simp add: all_match_def fun_eq_iff)

lemma filter_items_rows:
  assumes "filterable (h ! p) items"
  shows "\<exists>p' ext. filter_items pd items p h = (Inr p', h @ ext)
           \<and> (h @ ext) ! p' = (h ! p)\<lparr>rows := filter (all_match (h ! p) items) (rows (h ! p))\<rparr>"
  using assms
proof (induction items arbitrary: p h)
  case Nil
  have "filter_items pd [] p h = (Inr p, h @ [])" by simp
  moreover have "(h @ []) ! p = (h ! p)\<lparr>rows := filter (all_match (h ! p) []) (rows (h ! p))\<rparr>"
    by (simp add: all_match_Nil)
  ultimately show ?case by blast
next
  case (Cons c items)
  obtain col v where c: "c = (col, v)" by (cases c)
  let ?T = "h ! p"
  from Cons.prems c obtain j where j: "col_index (columns ?T) col = Some j"
    and v: "is_scalar v" and rest: "filterable ?T items"
    by (auto simp: filterable_def)
  let ?T' = "?T\<lparr>rows := filter (row_matches ?T col v) (rows ?T)\<rparr>"
  let ?h1 = "h @ [?T']"
  have step: "filter_items pd (c # items) p h = filter_items pd items (length h) ?h1"
    by (simp add: c filter_step [OF j v] alloc_def)
  have at: "?h1 ! length h = ?T'" by simp
  have "filterable (?h1 ! length h) items"
    using rest by (simp add: filterable_def)
  from Cons.IH [OF this] obtain p' ext where
    run: "filter_items pd items (length h) ?h1 = (Inr p', ?h1 @ ext)"
    and res: "(?h1 @ ext) ! p' =
       (?h1 ! length h)\<lparr>rows := filter (all_match (?h1 ! length h) items)
                                  (rows (?h1 ! length h))\<rparr>"
    by blast
  have "(h @ (?T' # ext)) ! p' =
          ?T\<lparr>rows := filter (all_match ?T (c # items)) (rows ?T)\<rparr>"
    using res by (simp add: all_match_Cons c)
  moreover have "filter_items pd (c # items) p h = (Inr p', h @ (?T' # ext))"
    using step run by simp
  ultimately show ?case by blast
qed

lemma process_data_filter:
  assumes "filterable (h ! df) items"
  shows "result_table (process_data pd df [(''filter'', PyDict items)] h)
           = Some ((h ! df)\<lparr>rows := filter (all_match (h ! df) items) (rows (h ! df))\<rparr>)"
proof -
  let ?h0 = "h @ [h ! df]"
  have "filterable (?h0 ! length h) items" using assms by simp
  from filter_items_rows [OF this, of pd] obtain p' ext where
    "filter_items pd items (length h) ?h0 = (Inr p', ?h0 @ ext)"
    "(?h0 @ ext) ! p' =
       (?h0 ! length h)\<lparr>rows := filter (all_match (?h0 ! length h) items)
                                  (rows (?h0 ! length h))\<rparr>"
    by blast
  then show ?thesis
    by (simp add: process_data_def alloc_def py_items_def result_table_def)
qed



lemma filterable_rows [simp]: "filterable (T\<lparr>rows := rs\<rparr>) = filterable T"
  by (simp add: filterable_def fun_eq_iff)

lemma then_filter:
  assumes "result_table r = Some T1" "filterable T1 items"
  shows "result_table (then_process pd [(''filter'', PyDict items)] r)
           = Some (T1\<lparr>rows := filter (all_match T1 items) (rows T1)\<rparr>)"
proof -
  from assms(1) obtain p h where r: "r = (Inr p, h)" and T1: "h ! p = T1"
    by (auto simp: result_table_def split: prod.splits sum.splits)
  have "filterable (h ! p) items" using assms(2) T1 by simp
  from process_data_filter [OF this, of pd] show ?thesis
    by (simp add: then_process_def r T1)
qed

text \<open>
  C8. Filtering by \<open>col1 = v1\<close> and then, in a second call, by \<open>col2 = v2\<close> gives the
  rows that satisfy both conditions; the two calls in the other order give the same
  table, and so does the single call with both conditions in one \<open>filter\<close> dict.
\<close>

theorem filters_compose:
  assumes "df < length h"
    and "col_index (columns (h ! df)) col1 \<noteq> None" and "is_scalar v1"
    and "col_index (columns (h ! df)) col2 \<noteq> None" and "is_scalar v2"
  shows "result_table (then_process pd [(''filter'', PyDict [(col2, v2)])]
             (process_data pd df [(''filter'', PyDict [(col1, v1)])] h))
           = Some ((h ! df)\<lparr>rows := filter (\<lambda>r. row_matches (h ! df) col1 v1 r
                                                \<and> row_matches (h ! df) col2 v2 r)
                                       (rows (h ! df))\<rparr>)
    \<and> result_table (then_process pd [(''filter'', PyDict [(col1, v1)])]
             (process_data pd df [(''filter'', PyDict [(col2, v2)])] h))
        = result_table (then_process pd [(''filter'', PyDict [(col2, v2)])]
             (process_data pd df [(''filter'', PyDict [(col1, v1)])] h))
    \<and> result_table (process_data pd df [(''filter'', PyDict [(col1, v1), (col2, v2)])] h)
        = result_table (then_process pd [(''filter'', PyDict [(col2, v2)])]
             (process_data pd df [(''filter'', PyDict [(col1, v1)])] h))"
proof -
  let ?T = "h ! df"
  let ?m1 = "row_matches ?T col1 v1" and ?m2 = "row_matches ?T col2 v2"
  have f1: "filterable ?T [(col1, v1)]" and f2: "filterable ?T [(col2, v2)]"
    and f12: "filterable ?T [(col1, v1), (col2, v2)]"
    using assms by (simp_all add: filterable_def)
  have one: "result_table (process_data pd df [(''filter'', PyDict [(col1, v1)])] h)
               = Some (?T\<lparr>rows := filter ?m1 (rows ?T)\<rparr>)"
    using process_data_filter [OF f1, of pd] by (simp add: all_match_Cons all_match_Nil)
  have two: "result_table (process_data pd df [(''filter'', PyDict [(col2, v2)])] h)
               = Some (?T\<lparr>rows := filter ?m2 (rows ?T)\<rparr>)"
    using process_data_filter [OF f2, of pd] by (simp add: all_match_Cons all_match_Nil)
  have a: "result_table (then_process pd [(''filter'', PyDict [(col2, v2)])]
             (process_data pd df [(''filter'', PyDict [(col1, v1)])] h))
           = Some (?T\<lparr>rows := filter (\<lambda>r. ?m1 r \<and> ?m2 r) (rows ?T)\<rparr>)"
    using then_filter [OF one, of "[(col2, v2)]" pd] f2
    by (simp add: all_match_Cons all_match_Nil conj_commute)
  have b: "result_table (then_process pd [(''filter'', PyDict [(col1, v1)])]
             (process_data pd df [(''filter'', PyDict [(col2, v2)])] h))
           = Some (?T\<lparr>rows := filter (\<lambda>r. ?m1 r \<and> ?m2 r) (rows ?T)\<rparr>)"
    using then_filter [OF two, of "[(col1, v1)]" pd] f1
    by (simp add: all_match_Cons all_match_Nil conj_commute)
  have c: "result_table (process_data pd df [(''filter'', PyDict [(col1, v1), (col2, v2)])] h)
           = Some (?T\<lparr>rows := filter (\<lambda>r. ?m1 r \<and> ?m2 r) (rows ?T)\<rparr>)"
    using process_data_filter [OF f12, of pd] by (simp add: all_match_Cons all_match_Nil)
  show ?thesis using a b c by simp
qed

theorem filters_compose_witness:
  "result_table (then_process pandas0 [(''filter'', PyDict [(''flag'', PyBool True)])]
       (process_data pandas0 0 [(''filter'', PyDict [(''city'', PyStr ''Oslo'')])] [table_flag]))
     = Some (table_flag\<lparr>rows := [(0, [PyInt 1, PyBool True, PyStr ''Oslo'']),
                                 (2, [PyInt 3, PyBool True, PyStr ''Oslo''])]\<rparr>)
   \<and> result_table (process_data pandas0 0
         [(''filter'', PyDict [(''city'', PyStr ''Oslo''), (''flag'', PyBool True)])] [table_flag])
     = Some (table_flag\<lparr>rows := [(0, [PyInt 1, PyBool True, PyStr ''Oslo'']),
                                 (2, [PyInt 3, PyBool True, PyStr ''Oslo''])]\<rparr>)"
  using filters_compose
    [of 0 "[table_flag]" "''city''" "PyStr ''Oslo''" "''flag''" "PyBool True" pandas0]
  by (simp add: table_flag_def row_matches_def)

lemma extends_refl [simp]: "extends h h"
  by (simp add: extends_def)

lemma extends_snoc: "extends (h @ [T]) h' \<Longrightarrow> extends h h'"
  by (auto simp: extends_def)

lemma extends_trans: "extends h h1 \<Longrightarrow> extends h1 h2 \<Longrightarrow> extends h h2"
  by (auto simp: extends_def)

lemma extends_nth: "extends h h' \<Longrightarrow> a < length h \<Longrightarrow> h' ! a = h ! a"
  by (auto simp: extends_def nth_append)

lemma extends_take: "extends h h' \<Longrightarrow> take (length h) h' = h"
  by (auto simp: extends_def)

lemma extends_length: "extends h h' \<Longrightarrow> length h \<le> length h'"
  by (auto simp: extends_def)

lemma filter_items_inv:
  assumes "p < length h" "filter_items pd items p h = (r, h')"
  shows "extends h h' \<and> (\<forall>p'. r = Inr p' \<longrightarrow> p \<le> p' \<and> p' < length h')"
  using assms
proof (induction items arbitrary: p h)
  case Nil
  then show ?case by auto
next
  case (Cons c items)
  obtain col v where c: "c = (col, v)" by (cases c)
  show ?case
  proof (cases "getitem_col (h ! p) col")
    case (Inl e)
    with Cons.prems c show ?thesis by auto
  next
    case series: (Inr series)
    show ?thesis
    proof (cases "series_eq pd series v")
      case (Inl e)
      with Cons.prems c series show ?thesis by auto
    next
      case msk: (Inr msk)
      show ?thesis
      proof (cases "getitem_mask (h ! p) msk")
        case (Inl e)
        with Cons.prems c series msk show ?thesis by auto
      next
        case (Inr T')
        with Cons.prems c series msk
        have run: "filter_items pd items (length h) (h @ [T']) = (r, h')"
          by (simp add: alloc_def)
        have "length h < length (h @ [T'])" by simp
        from Cons.IH [OF this run] Cons.prems(1) show ?thesis
          by (auto intro: extends_snoc)
      qed
    qed
  qed
qed

lemma process_ops_inv:
  assumes "p < length h" "process_ops pd ops p h = (r, h')"
  shows "extends h h' \<and> (\<forall>p'. r = Inr p' \<longrightarrow> p \<le> p' \<and> p' < length h')"
  using assms
proof (induction ops arbitrary: p h)
  case Nil
  then show ?case by auto
next
  case (Cons x ops)
  obtain op params where x: "x = (op, params)" by (cases x)
  have alloc_case: "extends h h' \<and> (\<forall>p'. r = Inr p' \<longrightarrow> p \<le> p' \<and> p' < length h')"
    if "process_ops pd ops (length h) (h @ [T']) = (r, h')" for T'
  proof -
    have "length h < length (h @ [T'])" by simp
    from Cons.IH [OF this that] Cons.prems(1) show ?thesis
      by (auto intro: extends_snoc)
  qed
  consider (f) "op = ''filter''" | (g) "op \<noteq> ''filter''" "op = ''group''"
    | (s) "op \<noteq> ''filter''" "op \<noteq> ''group''" "op = ''sort''"
    | (u) "op \<noteq> ''filter''" "op \<noteq> ''group''" "op \<noteq> ''sort''"
    by blast
  then show ?case
  proof cases
    case f
    show ?thesis
    proof (cases "py_items params")
      case (Inl e)
      with Cons.prems x f show ?thesis by auto
    next
      case (Inr items)
      obtain r1 h1 where fi: "filter_items pd items p h = (r1, h1)"
        by (cases "filter_items pd items p h")
      from filter_items_inv [OF Cons.prems(1) fi]
      have e1: "extends h h1" and p1: "\<forall>p'. r1 = Inr p' \<longrightarrow> p \<le> p' \<and> p' < length h1"
        by auto
      show ?thesis
      proof (cases r1)
        case (Inl e)
        with Cons.prems x f Inr fi e1 show ?thesis by auto
      next
        case r1: (Inr p1)
        with Cons.prems x f Inr fi have run: "process_ops pd ops p1 h1 = (r, h')" by simp
        from p1 r1 have "p1 < length h1" "p \<le> p1" by auto
        from Cons.IH [OF this(1) run] this(2) e1 show ?thesis
          by (auto intro: extends_trans)
      qed
    qed
  next
    case g
    with Cons.prems x alloc_case show ?thesis
      by (auto simp: alloc_def split: sum.splits)
  next
    case s
    with Cons.prems x alloc_case show ?thesis
      by (auto simp: alloc_def split: sum.splits)
  next
    case u
    with Cons.prems x have "process_ops pd ops p h = (r, h')" by simp
    from Cons.IH [OF Cons.prems(1) this] show ?thesis .
  qed
qed

text \<open>
  C9. Whatever the operations, and whether the call returns or raises, \<open>process_data\<close>
  leaves the caller's frame, and every frame that existed before the call, as it was;
  a frame it returns was allocated during the call.
\<close>

theorem process_data_leaves_input:
  assumes "df < length h" and "process_data pd df operations h = (r, h')"
  shows "h' ! df = h ! df \<and> take (length h) h' = h
         \<and> (\<forall>p. r = Inr p \<longrightarrow> length h \<le> p \<and> p < length h')"
proof -
  have run: "process_ops pd operations (length h) (h @ [h ! df]) = (r, h')"
    using assms(2) by (simp add: process_data_def alloc_def)
  have "length h < length (h @ [h ! df])" by simp
  from process_ops_inv [OF this run]
  have e: "extends (h @ [h ! df]) h'"
    and p: "\<forall>p'. r = Inr p' \<longrightarrow> length h \<le> p' \<and> p' < length h'"
    by auto
  from e have "extends h h'" by (rule extends_snoc)
  with p assms(1) show ?thesis
    by (simp add: extends_nth extends_take)
qed

theorem process_data_leaves_input_witness:
  "(0::nat) < length [table_ab]
   \<and> process_data pandas0 0 [(''filter'', PyDict [(''a'', PyInt 3)])] [table_ab]
       = (Inr 2, [table_ab, table_ab, table_ab\<lparr>rows := [(1, [PyInt 3, PyInt 4])]\<rparr>])
   \<and> [table_ab, table_ab, table_ab\<lparr>rows := [(1, [PyInt 3, PyInt 4])]\<rparr>] ! 0 = [table_ab] ! 0"
proof -
  have run: "process_data pandas0 0 [(''filter'', PyDict [(''a'', PyInt 3)])] [table_ab]
       = (Inr 2, [table_ab, table_ab, table_ab\<lparr>rows := [(1, [PyInt 3, PyInt 4])]\<rparr>])"
    by (simp add: process_data_def alloc_def py_items_def getitem_col_def series_eq_def
        getitem_mask_def table_ab_def)
  have len: "(0::nat) < length [table_ab]" by simp
  from process_data_leaves_input [OF len run] len run show ?thesis by simp
qed

lemma process_ops_skip:
  "\<not> recognised op \<Longrightarrow> process_ops pd ((op, params) # ops) p h = process_ops pd ops p h"
  by (simp add: recognised_def)

lemma process_ops_Cons_cong:
  assumes "\<And>p' h'. process_ops pd ops p' h' = process_ops pd ops' p' h'"
  shows "process_ops pd (x # ops) p h = process_ops pd (x # ops') p h"
proof -
  obtain op params where x: "x = (op, params)" by (cases x)
  show ?thesis unfolding x process_ops.simps(2) assms ..
qed

lemma process_ops_recognised:
  "process_ops pd ops p h = process_ops pd (filter (\<lambda>x. recognised (fst x)) ops) p h"
proof (induction ops arbitrary: p h)
  case Nil
  show ?case by simp
next
  case (Cons x ops)
  obtain op params where x: "x = (op, params)" by (cases x)
  show ?case
  proof (cases "recognised op")
    case False
    then have "process_ops pd (x # ops) p h = process_ops pd ops p h"
      unfolding x by (rule process_ops_skip)
    moreover have "filter (\<lambda>x. recognised (fst x)) (x # ops)
                     = filter (\<lambda>x. recognised (fst x)) ops"
      using False by (simp add: x)
    ultimately show ?thesis using Cons.IH by simp
  next
    case True
    have "process_ops pd (x # ops) p h
          = process_ops pd (x # filter (\<lambda>x. recognised (fst x)) ops) p h"
      by (rule process_ops_Cons_cong) (rule Cons.IH)
    with True show ?thesis by (simp only: x filter.simps fst_conv if_True)
  qed
qed

text \<open>
  C10. An entry whose name is not \<open>filter\<close>, \<open>group\<close> or \<open>sort\<close> is stepped
  over: the call does what it does on the recognised entries alone, in their order, and
  a lone unrecognised entry returns the copy of the input without an error.
\<close>

theorem unrecognised_operations_skipped:
  "process_data pd df operations h
     = process_data pd df (filter (\<lambda>x. recognised (fst x)) operations) h
   \<and> (\<not> recognised op \<longrightarrow>
        process_ops pd ((op, params) # ops) p h = process_ops pd ops p h
        \<and> process_data pd df [(op, params)] h = (Inr (length h), h @ [h ! df]))"
proof (intro conjI impI)
  show "process_data pd df operations h
          = process_data pd df (filter (\<lambda>x. recognised (fst x)) operations) h"
    using process_ops_recognised [of pd operations]
    by (simp add: process_data_def alloc_def)
  show "process_ops pd ((op, params) # ops) p h = process_ops pd ops p h"
    if "\<not> recognised op"
    using that by (rule process_ops_skip)
  show "process_data pd df [(op, params)] h = (Inr (length h), h @ [h ! df])"
    if "\<not> recognised op"
    using that by (simp add: process_data_def alloc_def recognised_def)
qed

theorem unrecognised_operations_skipped_witness:
  "\<not> recognised ''pivot''
   \<and> process_data pandas0 0 [(''pivot'', PyNone)] [table_ab] = (Inr 1, [table_ab, table_ab])
   \<and> process_data pandas0 0
        [(''pivot'', PyStr ''a''), (''filter'', PyDict [(''a'', PyInt 3)])] [table_ab]
      = process_data pandas0 0 [(''filter'', PyDict [(''a'', PyInt 3)])] [table_ab]"
  using unrecognised_operations_skipped
      [of pandas0 0 "[(''pivot'', PyNone)]" "[table_ab]" "''pivot''" PyNone "[]" 0]
    unrecognised_operations_skipped
      [of pandas0 0 "[(''pivot'', PyStr ''a''), (''filter'', PyDict [(''a'', PyInt 3)])]"
          "[table_ab]" "''pivot''" PyNone "[]" 0]
  by (simp add: recognised_def)

end
